theory Spec2Isabelle
  imports Complex_Main "HOL-Library.Multiset"
begin

section \<open>Data model\<close>

text \<open>
  A candle is one row of the exchange's kline array. \<open>get_volatility\<close> reads column 0
  (named \<open>timestamp\<close> in the data frame, the candle's open time in milliseconds) and
  column 4 (\<open>close\<close>); the other ten columns are carried but never consumed, so the
  record keeps the two that are read. The close is the value after \<open>astype(float)\<close>.
\<close>

record candle =
  open_time :: int
  close :: real

text \<open>
  A float64 cell of the data frame, in ideal (unrounded) arithmetic: a finite number, an
  infinity, or NaN (which pandas treats as a missing value).
\<close>

datatype npfloat = Num real | Infinite | NaN

text \<open>The query string of one outbound request to \<open>/api/v3/klines\<close>.\<close>

record klines_params =
  q_symbol :: string
  q_interval :: string
  startTime :: int
  endTime :: int
  limit :: int

text \<open>
  What \<open>requests.get\<close> followed by \<open>raise_for_status\<close> and \<open>json\<close> yields: a transport
  or HTTP failure (a \<open>RequestException\<close> with its message), or the decoded page.
\<close>

datatype reply = HTTPFail string | Page "candle list"

text \<open>
  The exchange is outside the program: its answer may depend on the request and on how
  many requests were made before it.
\<close>

type_synonym exchange = "nat \<Rightarrow> klines_params \<Rightarrow> reply"

text \<open>
  The exceptions that travel through the handler's \<open>try\<close> block. Both are subclasses of
  Python's \<open>Exception\<close>; \<open>HTTPException\<close> carries \<open>status_code\<close> and \<open>detail\<close>.
\<close>

datatype py_exception = RequestException string | HTTPException int string

record VolatilityResponse =
  symbol :: string
  average_vol :: "real option"
  max_vol :: "real option"
  min_vol :: "real option"
  current_vol :: "real option"
  timestamps :: "int list"
  rolling_vols :: "real list"
  prices :: "real list"

text \<open>
  In the response a \<open>float\<close> field that holds NaN is \<open>None\<close>. The timestamps are kept as
  the millisecond values whose ISO-8601 rendering is sent.
\<close>

section \<open>Range fetcher\<close>

definition upper_char :: "char \<Rightarrow> char" where
  "upper_char c =
     (case map_of (zip ''abcdefghijklmnopqrstuvwxyz'' ''ABCDEFGHIJKLMNOPQRSTUVWXYZ'') c of
        None \<Rightarrow> c | Some u \<Rightarrow> u)"

text \<open>
  \<open>str.upper\<close> on the ASCII letters of a trading-pair symbol; characters outside
  \<open>a\<close> to \<open>z\<close>, which Python may map as well, are left as they are. No property below
  depends on the upper-cased symbol.
\<close>

definition upper :: "string \<Rightarrow> string" where
  "upper s = map upper_char s"

text \<open>
  The variables the \<open>while\<close> loop updates, together with the number of requests made
  so far.
\<close>

record fetch_state =
  calls :: nat
  current_start_ms :: int
  all_data :: "candle list"

datatype step_result = Raise py_exception | Break | Next fetch_state

text \<open>
  One pass through the loop body: the request, \<open>raise_for_status\<close>, the \<open>break\<close> on an
  empty page, \<open>all_data.extend(data)\<close> and
  \<open>current_start_ms = int(data[-1][0]) + 300000\<close>.
\<close>

definition request_params :: "string \<Rightarrow> string \<Rightarrow> int \<Rightarrow> fetch_state \<Rightarrow> klines_params" where
  "request_params symb itv end_ms st =
     \<lparr>q_symbol = upper symb, q_interval = itv, startTime = current_start_ms st,
      endTime = end_ms, limit = 1000\<rparr>"

definition fetch_step :: "exchange \<Rightarrow> string \<Rightarrow> string \<Rightarrow> int \<Rightarrow> fetch_state \<Rightarrow> step_result" where
  "fetch_step ex symb itv end_ms st =
     (case ex (calls st) (request_params symb itv end_ms st) of
        HTTPFail msg \<Rightarrow> Raise (RequestException msg)
      | Page data \<Rightarrow>
          if data = [] then Break
          else Next \<lparr>calls = Suc (calls st),
                      current_start_ms = open_time (last data) + 300000,
                      all_data = all_data st @ data\<rparr>)"

text \<open>
  The \<open>while current_start_ms < end_ms\<close> loop. A failed request raises out of the loop
  (\<open>Inl\<close>). The loop need not end: \<open>None\<close> is the run that never leaves it.
\<close>

partial_function (option) fetch_loop ::
  "exchange \<Rightarrow> string \<Rightarrow> string \<Rightarrow> int \<Rightarrow> fetch_state \<Rightarrow> (py_exception + candle list) option"
  where
  "fetch_loop ex symb itv end_ms st =
     (if current_start_ms st < end_ms then
        (case fetch_step ex symb itv end_ms st of
           Raise e \<Rightarrow> Some (Inl e)
         | Break \<Rightarrow> Some (Inr (all_data st))
         | Next st' \<Rightarrow> fetch_loop ex symb itv end_ms st')
      else Some (Inr (all_data st)))"

section \<open>Volatility estimator\<close>

text \<open>
  \<open>np.log(c / p)\<close> for a close \<open>c\<close> and the previous close \<open>p\<close>: a zero divisor gives
  an infinite or NaN quotient, the logarithm of a negative number (or of minus infinity)
  is NaN, the logarithm of zero is minus infinity. The arithmetic is that of the real
  numbers: the rounding of float64, and a quotient that leaves its range, are not
  modelled.
\<close>

definition log_return :: "real \<Rightarrow> real \<Rightarrow> npfloat" where
  "log_return c p =
     (if p = 0 then (if 0 < c then Infinite else NaN)
      else if c / p < 0 then NaN
      else if c = 0 then Infinite
      else Num (ln (c / p)))"

text \<open>
  \<open>np.log(df['close'] / df['close'].shift(1))\<close>: the shifted column starts with NaN, so
  row 0 is NaN and row \<open>i\<close> pairs each close with the one before it.
\<close>

definition returns :: "real list \<Rightarrow> npfloat list" where
  "returns closes =
     (case closes of [] \<Rightarrow> [] | c # cs \<Rightarrow> NaN # map2 log_return cs closes)"

fun nums :: "npfloat list \<Rightarrow> real list" where
  "nums [] = []"
| "nums (Num v # xs) = v # nums xs"
| "nums (Infinite # xs) = nums xs"
| "nums (NaN # xs) = nums xs"

text \<open>The variance with \<open>ddof = 1\<close> that both \<open>std\<close> calls use.\<close>

definition sample_var :: "real list \<Rightarrow> real" where
  "sample_var xs =
     (let avg = sum_list xs / real (length xs)
      in sum_list (map (\<lambda>x. (avg - x)\<^sup>2) xs) / real (length xs - 1))"

text \<open>
  \<open>Series.std()\<close>: NaN rows are skipped, the result is NaN unless more than \<open>ddof = 1\<close>
  rows remain, and an infinite row makes the mean infinite and the result NaN.
\<close>

definition series_std :: "npfloat list \<Rightarrow> real option" where
  "series_std xs =
     (let vs = filter (\<lambda>x. x \<noteq> NaN) xs
      in if length vs \<le> 1 then None
         else if Infinite \<in> set vs then None
         else Some (sqrt (sample_var (nums vs))))"

text \<open>
  One window of \<open>rolling(w).std()\<close>: infinities are turned into NaN, and the value is
  defined when the window holds at least \<open>min_periods = w\<close> numbers and more than
  \<open>ddof = 1\<close>.
\<close>

definition window_std :: "nat \<Rightarrow> npfloat list \<Rightarrow> real option" where
  "window_std w win =
     (let vs = nums win
      in if length vs < w \<or> length vs \<le> 1 then None else Some (sqrt (sample_var vs)))"

text \<open>The window of row \<open>i\<close> is the rows \<open>i - w + 1 .. i\<close>, cut off at row 0.\<close>

definition rolling_std :: "nat \<Rightarrow> npfloat list \<Rightarrow> real option list" where
  "rolling_std w xs =
     map (\<lambda>i. window_std w (drop (i + 1 - w) (take (i + 1) xs))) [0..<length xs]"

definition minutes_per_interval :: nat where
  "minutes_per_interval = 5"

definition intervals_per_hour :: nat where
  "intervals_per_hour = 60 div minutes_per_interval"

definition window_size :: nat where
  "window_size = intervals_per_hour"

text \<open>The factor \<open>* np.sqrt(intervals_per_hour) * 10000\<close>; NaN stays NaN.\<close>

definition scale_bps :: "real option \<Rightarrow> real option" where
  "scale_bps v = map_option (\<lambda>s. s * sqrt (real intervals_per_hour) * 10000) v"

definition vol_1h_bps :: "real list \<Rightarrow> real option list" where
  "vol_1h_bps closes = map scale_bps (rolling_std window_size (returns closes))"

definition overall_vol :: "real list \<Rightarrow> real option" where
  "overall_vol closes = scale_bps (series_std (returns closes))"

text \<open>\<open>Series.max()\<close> and \<open>Series.min()\<close> skip NaN rows; with none left they give NaN.\<close>

definition series_max :: "real option list \<Rightarrow> real option" where
  "series_max xs =
     (case List.map_filter id xs of [] \<Rightarrow> None | v # vs \<Rightarrow> Some (fold max vs v))"

definition series_min :: "real option list \<Rightarrow> real option" where
  "series_min xs =
     (case List.map_filter id xs of [] \<Rightarrow> None | v # vs \<Rightarrow> Some (fold min vs v))"

definition fillna :: "real \<Rightarrow> real option list \<Rightarrow> real list" where
  "fillna d xs = map (\<lambda>x. case x of None \<Rightarrow> d | Some v \<Rightarrow> v) xs"

section \<open>The request handler\<close>

text \<open>
  The body from the data frame on. \<open>srt\<close> is \<open>sort_values('timestamp')\<close> of the data-frame
  library, called with its default algorithm. The frame has at least one row here (the
  empty list was raised as an exception before, and sorting keeps the rows), so
  \<open>iloc[-1]\<close> is the last row of the column. The open times are taken to be in the range
  that \<open>pd.to_datetime\<close> converts.
\<close>

definition build_response ::
  "(candle list \<Rightarrow> candle list) \<Rightarrow> string \<Rightarrow> candle list \<Rightarrow> VolatilityResponse" where
  "build_response srt symb fetched =
     (let df = srt fetched;
          closes = map close df;
          vol = vol_1h_bps closes
      in \<lparr>symbol = symb,
          average_vol = overall_vol closes,
          max_vol = series_max vol,
          min_vol = series_min vol,
          current_vol = last vol,
          timestamps = map open_time df,
          rolling_vols = fillna 0 vol,
          prices = closes\<rparr>)"

text \<open>
  The \<open>try\<close> block. \<open>now_ms\<close> is the wall clock in milliseconds; the range starts
  \<open>lookback_hours\<close> hours before it, computed on unbounded integers (the limits of the
  date arithmetic of the source at very large \<open>lookback_hours\<close>, and an hour's shift
  across a change of daylight-saving time, are not modelled).
\<close>

definition try_block ::
  "(candle list \<Rightarrow> candle list) \<Rightarrow> exchange \<Rightarrow> int \<Rightarrow> string \<Rightarrow> int \<Rightarrow> string
     \<Rightarrow> (py_exception + VolatilityResponse) option" where
  "try_block srt ex now_ms symb lookback_hours itv =
     (let end_ms = now_ms;
          start_ms = now_ms - lookback_hours * 3600000
      in case fetch_loop ex symb itv end_ms
                \<lparr>calls = 0, current_start_ms = start_ms, all_data = []\<rparr> of
           None \<Rightarrow> None
         | Some (Inl e) \<Rightarrow> Some (Inl e)
         | Some (Inr fetched) \<Rightarrow>
             if fetched = []
             then Some (Inl (HTTPException 404 (''No data found for '' @ symb)))
             else Some (Inr (build_response srt symb fetched)))"

fun digit_str :: "nat \<Rightarrow> string" where
  "digit_str n =
     (if n < 10 then [''0123456789'' ! n]
      else digit_str (n div 10) @ [''0123456789'' ! (n mod 10)])"

declare digit_str.simps [simp del]

definition int_str :: "int \<Rightarrow> string" where
  "int_str i = (if i < 0 then CHR ''-'' # digit_str (nat (- i)) else digit_str (nat i))"

text \<open>
  \<open>str(e)\<close>: the message of a \<open>RequestException\<close>; for the web framework's
  \<open>HTTPException\<close> the status code, a colon and the detail.
\<close>

fun py_str :: "py_exception \<Rightarrow> string" where
  "py_str (RequestException msg) = msg"
| "py_str (HTTPException code detail) = int_str code @ '': '' @ detail"

text \<open>
  The two \<open>except\<close> clauses, in the source's order: \<open>RequestException\<close> first, then
  \<open>Exception\<close>, which matches every exception left, the \<open>HTTPException\<close> raised inside
  the \<open>try\<close> block included.
\<close>

fun except_clauses :: "py_exception \<Rightarrow> py_exception" where
  "except_clauses (RequestException msg) =
     HTTPException 500 (''Error fetching data from Binance: '' @ msg)"
| "except_clauses e = HTTPException 500 (py_str e)"

definition get_volatility ::
  "(candle list \<Rightarrow> candle list) \<Rightarrow> exchange \<Rightarrow> int \<Rightarrow> string \<Rightarrow> int \<Rightarrow> string
     \<Rightarrow> (py_exception + VolatilityResponse) option" where
  "get_volatility srt ex now_ms symb lookback_hours itv =
     (case try_block srt ex now_ms symb lookback_hours itv of
        None \<Rightarrow> None
      | Some (Inl e) \<Rightarrow> Some (Inl (except_clauses e))
      | Some (Inr r) \<Rightarrow> Some (Inr r))"

text \<open>
  The status of the inbound response: the status of the exception that leaves the handler,
  else 200 for a returned body, unless one of its \<open>float\<close> fields holds NaN: a body with
  NaN cannot be encoded as JSON, and the web framework answers 500.
\<close>

fun status_code :: "py_exception + VolatilityResponse \<Rightarrow> int" where
  "status_code (Inl (HTTPException code detail)) = code"
| "status_code (Inl (RequestException msg)) = 500"
| "status_code (Inr r) =
     (if average_vol r = None \<or> max_vol r = None \<or> min_vol r = None \<or> current_vol r = None
      then 500 else 200)"

section \<open>Properties of the surroundings\<close>

text \<open>
  What \<open>sort_values('timestamp')\<close> promises whichever algorithm runs: the rows come back
  rearranged, in non-decreasing order of the timestamp.
\<close>

definition sorts_by_timestamp :: "(candle list \<Rightarrow> candle list) \<Rightarrow> bool" where
  "sorts_by_timestamp srt \<longleftrightarrow>
     (\<forall>xs. mset (srt xs) = mset xs \<and> sorted (map open_time (srt xs)))"

text \<open>
  An exchange makes progress when the last row of every non-empty page opens no earlier
  than the \<open>startTime\<close> the page was asked for.
\<close>

definition progressing :: "exchange \<Rightarrow> bool" where
  "progressing ex \<longleftrightarrow>
     (\<forall>n p data. ex n p = Page data \<longrightarrow> data \<noteq> [] \<longrightarrow> startTime p \<le> open_time (last data))"

text \<open>
  Modelled from the spec: \<open>interval_duration_ms\<close>, the duration in milliseconds of a
  requested interval string. The source has no such function; its loop adds a constant.
\<close>

definition interval_duration_ms :: "string \<Rightarrow> int option" where
  "interval_duration_ms itv =
     map_of [(''1m'', 60000), (''3m'', 180000), (''5m'', 300000), (''15m'', 900000),
             (''30m'', 1800000), (''1h'', 3600000), (''2h'', 7200000), (''4h'', 14400000),
             (''6h'', 21600000), (''8h'', 28800000), (''12h'', 43200000),
             (''1d'', 86400000), (''3d'', 259200000), (''1w'', 604800000)] itv"

section \<open>Concrete exchanges\<close>

text \<open>An exchange with no candle in any range.\<close>

definition empty_exchange :: exchange where
  "empty_exchange n p = Page []"

text \<open>An exchange whose every page is the one candle opening at the requested start.\<close>

definition steady_exchange :: exchange where
  "steady_exchange n p = Page [\<lparr>open_time = startTime p, close = 100\<rparr>]"

text \<open>An exchange whose every page is one candle opening ten minutes before the start.\<close>

definition stale_exchange :: exchange where
  "stale_exchange n p = Page [\<lparr>open_time = startTime p - 600000, close = 100\<rparr>]"

text \<open>An exchange that holds the given candles and answers the first request with all of them.\<close>

definition one_page_exchange :: "candle list \<Rightarrow> exchange" where
  "one_page_exchange cs n p = (if n = 0 then Page cs else Page [])"

section \<open>The specification's return series and standard deviation\<close>

text \<open>
  Modelled from the spec: the return series, the logarithm of each close over the close
  before it, from the second close on.
\<close>

definition log_ratios :: "real list \<Rightarrow> real list" where
  "log_ratios closes = map2 (\<lambda>c p. ln (c / p)) (tl closes) closes"

definition mean :: "real list \<Rightarrow> real" where
  "mean xs = sum_list xs / real (length xs)"

text \<open>
  Modelled from the spec: the standard deviation of a list of numbers, with the \<open>n - 1\<close>
  denominator; it has no value for fewer than two numbers.
\<close>

definition stddev :: "real list \<Rightarrow> real option" where
  "stddev xs =
     (if length xs < 2 then None
      else Some (sqrt ((\<Sum>x\<leftarrow>xs. (x - mean xs)\<^sup>2) / (real (length xs) - 1))))"

section \<open>Concrete candles\<close>

text \<open>
  One hour of five-minute candles and one more: twelve closes of 100, then a close of 200.
\<close>

definition thirteen_candles :: "candle list" where
  "thirteen_candles =
     [\<lparr>open_time = 300000, close = 100\<rparr>, \<lparr>open_time = 600000, close = 100\<rparr>,
      \<lparr>open_time = 900000, close = 100\<rparr>, \<lparr>open_time = 1200000, close = 100\<rparr>,
      \<lparr>open_time = 1500000, close = 100\<rparr>, \<lparr>open_time = 1800000, close = 100\<rparr>,
      \<lparr>open_time = 2100000, close = 100\<rparr>, \<lparr>open_time = 2400000, close = 100\<rparr>,
      \<lparr>open_time = 2700000, close = 100\<rparr>, \<lparr>open_time = 3000000, close = 100\<rparr>,
      \<lparr>open_time = 3300000, close = 100\<rparr>, \<lparr>open_time = 3600000, close = 100\<rparr>,
      \<lparr>open_time = 3900000, close = 200\<rparr>]"

abbreviation thirteen_closes :: "real list" where
  "thirteen_closes \<equiv> [100, 100, 100, 100, 100, 100, 100, 100, 100, 100, 100, 100, 200]"

section \<open>Series, pages and exchanges used below\<close>

text \<open>
  Every close after the first stands in a positive ratio to the close before it, which
  is not zero; so it is for a series of positive prices.
\<close>

fun positive_ratios :: "real list \<Rightarrow> bool" where
  "positive_ratios [] = True"
| "positive_ratios [c] = True"
| "positive_ratios (p # c # cs) = (p \<noteq> 0 \<and> 0 < c / p \<and> positive_ratios (c # cs))"

text \<open>
  The non-empty pages the exchange hands to the successive requests of one run of the
  loop that returns: the run starts with request number \<open>n\<close> at \<open>start\<close>, and each page
  moves the start to the open time of its last row plus 300000. This follows the requests
  only; it does not look at what the loop accumulates.
\<close>

inductive received_pages ::
  "exchange \<Rightarrow> string \<Rightarrow> string \<Rightarrow> int \<Rightarrow> nat \<Rightarrow> int \<Rightarrow> candle list list \<Rightarrow> bool"
  for ex :: exchange and symb :: string and itv :: string and end_ms :: int where
  range_covered: "end_ms \<le> start \<Longrightarrow> received_pages ex symb itv end_ms n start []"
| empty_page:
    "start < end_ms \<Longrightarrow>
     ex n \<lparr>q_symbol = upper symb, q_interval = itv, startTime = start, endTime = end_ms,
           limit = 1000\<rparr> = Page [] \<Longrightarrow>
     received_pages ex symb itv end_ms n start []"
| next_page:
    "start < end_ms \<Longrightarrow>
     ex n \<lparr>q_symbol = upper symb, q_interval = itv, startTime = start, endTime = end_ms,
           limit = 1000\<rparr> = Page data \<Longrightarrow>
     data \<noteq> [] \<Longrightarrow>
     received_pages ex symb itv end_ms (Suc n) (open_time (last data) + 300000) pages \<Longrightarrow>
     received_pages ex symb itv end_ms n start (data # pages)"

text \<open>
  An exchange that holds the given candles and answers a request with the first \<open>k\<close> of
  those that open within the requested range.
\<close>

definition paged_exchange :: "candle list \<Rightarrow> nat \<Rightarrow> exchange" where
  "paged_exchange cs k n p =
     Page (take k (filter (\<lambda>c. startTime p \<le> open_time c \<and> open_time c \<le> endTime p) cs))"


text \<open>Fourteen closes, the one of row 5 zero.\<close>

abbreviation zero_close_series :: "real list" where
  "zero_close_series \<equiv> [100, 100, 100, 100, 100, 0, 100, 100, 100, 100, 100, 100, 100, 100]"

section \<open>The pagination loop\<close>

lemma fetch_loop_done:
  "\<not> current_start_ms st < end_ms \<Longrightarrow> fetch_loop ex symb itv end_ms st = Some (Inr (all_data st))"
  by (subst fetch_loop.simps) simp

lemma fetch_loop_raise:
  "current_start_ms st < end_ms \<Longrightarrow> fetch_step ex symb itv end_ms st = Raise e
     \<Longrightarrow> fetch_loop ex symb itv end_ms st = Some (Inl e)"
  by (subst fetch_loop.simps) simp

lemma fetch_loop_break:
  "current_start_ms st < end_ms \<Longrightarrow> fetch_step ex symb itv end_ms st = Break
     \<Longrightarrow> fetch_loop ex symb itv end_ms st = Some (Inr (all_data st))"
  by (subst fetch_loop.simps) simp

lemma fetch_loop_next:
  "current_start_ms st < end_ms \<Longrightarrow> fetch_step ex symb itv end_ms st = Next st'
     \<Longrightarrow> fetch_loop ex symb itv end_ms st = fetch_loop ex symb itv end_ms st'"
  by (subst fetch_loop.simps) simp

lemma fetch_step_page:
  "ex (calls st) (request_params symb itv end_ms st) = Page data \<Longrightarrow> data \<noteq> [] \<Longrightarrow>
   fetch_step ex symb itv end_ms st =
     Next \<lparr>calls = Suc (calls st), current_start_ms = open_time (last data) + 300000,
           all_data = all_data st @ data\<rparr>"
  by (simp add: fetch_step_def)

lemma fetch_step_empty_page:
  "ex (calls st) (request_params symb itv end_ms st) = Page [] \<Longrightarrow>
   fetch_step ex symb itv end_ms st = Break"
  by (simp add: fetch_step_def)

lemma progressing_step:
  assumes "progressing ex" and "fetch_step ex symb itv end_ms st = Next st'"
  shows "current_start_ms st + 300000 \<le> current_start_ms st'"
proof -
  let ?p = "request_params symb itv end_ms st"
  from assms(2) obtain data where page: "ex (calls st) ?p = Page data" and ne: "data \<noteq> []"
    and st': "current_start_ms st' = open_time (last data) + 300000"
    by (auto simp: fetch_step_def split: reply.splits if_splits)
  from assms(1) page ne have "startTime ?p \<le> open_time (last data)"
    unfolding progressing_def by blast
  with st' show ?thesis by (simp add: request_params_def)
qed

lemma fetch_loop_returns:
  assumes "progressing ex"
  shows "nat (end_ms - current_start_ms st) = k \<Longrightarrow> \<exists>r. fetch_loop ex symb itv end_ms st = Some r"
proof (induction k arbitrary: st rule: less_induct)
  case (less k)
  show ?case
  proof (cases "current_start_ms st < end_ms")
    case False
    then show ?thesis by (simp add: fetch_loop_done)
  next
    case True
    show ?thesis
    proof (cases "fetch_step ex symb itv end_ms st")
      case (Raise e)
      with True show ?thesis by (simp add: fetch_loop_raise)
    next
      case Break
      with True show ?thesis by (simp add: fetch_loop_break)
    next
      case (Next st')
      from progressing_step [OF assms Next] True less.prems
      have "nat (end_ms - current_start_ms st') < k" by linarith
      from less.IH [OF this refl] fetch_loop_next [OF True Next] show ?thesis by simp
    qed
  qed
qed

lemma stale_never_returns:
  assumes "fetch_loop ex symb itv end_ms st = Some r"
  shows "ex = stale_exchange \<longrightarrow> end_ms \<le> current_start_ms st"
proof (rule fetch_loop.raw_induct
    [where P = "\<lambda>ex symb itv end_ms st r. ex = stale_exchange \<longrightarrow> end_ms \<le> current_start_ms st",
      OF _ assms])
  fix fl :: "exchange \<Rightarrow> string \<Rightarrow> string \<Rightarrow> int \<Rightarrow> fetch_state
     \<Rightarrow> (py_exception + candle list) option"
  fix ex :: exchange and symb itv :: string and end_ms :: int and st :: fetch_state
    and r :: "py_exception + candle list"
  assume IH: "\<And>ex symb itv end_ms st r.
      fl ex symb itv end_ms st = Some r \<Longrightarrow> ex = stale_exchange \<longrightarrow> end_ms \<le> current_start_ms st"
  assume unfolded: "(if current_start_ms st < end_ms
      then case fetch_step ex symb itv end_ms st of
             Raise e \<Rightarrow> Some (Inl e)
           | Break \<Rightarrow> Some (Inr (all_data st))
           | Next st' \<Rightarrow> fl ex symb itv end_ms st'
      else Some (Inr (all_data st))) = Some r"
  show "ex = stale_exchange \<longrightarrow> end_ms \<le> current_start_ms st"
  proof (intro impI, rule ccontr)
    assume ex: "ex = stale_exchange" and "\<not> end_ms \<le> current_start_ms st"
    then have lt: "current_start_ms st < end_ms" by simp
    with unfolded ex obtain st' where step: "fl ex symb itv end_ms st' = Some r"
      and "current_start_ms st' = current_start_ms st - 600000 + 300000"
      by (simp add: stale_exchange_def fetch_step_def request_params_def)
    with IH [OF step] ex lt show False by simp
  qed
qed

lemma stale_exchange_diverges:
  "current_start_ms st < end_ms \<Longrightarrow> fetch_loop stale_exchange symb itv end_ms st = None"
  using stale_never_returns [of stale_exchange symb itv end_ms st]
  by (cases "fetch_loop stale_exchange symb itv end_ms st") auto

lemma progressing_steady: "progressing steady_exchange"
  by (simp add: progressing_def steady_exchange_def)

text \<open>
  C9: the pagination loop terminates whenever the exchange makes progress (every non-empty
  page ends with a row that opens no earlier than the requested \<open>startTime\<close>): each
  pass then raises \<open>current_start_ms\<close> by at least 300000, so the loop returns. Without
  the precondition it may run forever: against an exchange whose pages end ten minutes
  before the requested start the loop never returns.
\<close>

theorem pagination_terminates:
  "(progressing ex \<longrightarrow> (\<exists>r. fetch_loop ex symb itv end_ms st = Some r)) \<and>
   (progressing ex \<and> fetch_step ex symb itv end_ms st = Next st'
      \<longrightarrow> current_start_ms st + 300000 \<le> current_start_ms st') \<and>
   (current_start_ms st < end_ms \<longrightarrow> fetch_loop stale_exchange symb itv end_ms st = None)"
  using fetch_loop_returns [of ex end_ms st _ symb itv] progressing_step [of ex symb itv end_ms st]
    stale_exchange_diverges [of st end_ms symb itv]
  by blast

theorem pagination_terminates_witness:
  "progressing steady_exchange \<and>
   (\<exists>r. fetch_loop steady_exchange ''btcusdt'' ''5m'' 86400000
          \<lparr>calls = 0, current_start_ms = 0, all_data = []\<rparr> = Some r) \<and>
   fetch_step steady_exchange ''btcusdt'' ''5m'' 86400000
       \<lparr>calls = 0, current_start_ms = 0, all_data = []\<rparr>
     = Next \<lparr>calls = 1, current_start_ms = 300000,
             all_data = [\<lparr>open_time = 0, close = 100\<rparr>]\<rparr> \<and>
   current_start_ms \<lparr>calls = 0, current_start_ms = 0, all_data = []\<rparr> + 300000
     \<le> current_start_ms \<lparr>calls = 1, current_start_ms = 300000,
                          all_data = [\<lparr>open_time = 0, close = 100\<rparr>]\<rparr> \<and>
   current_start_ms \<lparr>calls = 0, current_start_ms = 0, all_data = []\<rparr> < (86400000 :: int) \<and>
   fetch_loop stale_exchange ''btcusdt'' ''5m'' 86400000
       \<lparr>calls = 0, current_start_ms = 0, all_data = []\<rparr> = None"
proof -
  have step: "fetch_step steady_exchange ''btcusdt'' ''5m'' 86400000
       \<lparr>calls = 0, current_start_ms = 0, all_data = []\<rparr>
     = Next \<lparr>calls = 1, current_start_ms = 300000,
             all_data = [\<lparr>open_time = 0, close = 100\<rparr>]\<rparr>"
    by (simp add: fetch_step_def steady_exchange_def request_params_def)
  show ?thesis
    using pagination_terminates [of steady_exchange "''btcusdt''" "''5m''" 86400000
        "\<lparr>calls = 0, current_start_ms = 0, all_data = []\<rparr>"
        "\<lparr>calls = 1, current_start_ms = 300000, all_data = [\<lparr>open_time = 0, close = 100\<rparr>]\<rparr>"]
      progressing_steady step
    by simp
qed

section \<open>The step of the loop\<close>

text \<open>
  C2, as amended: after a non-empty page the fetcher sets \<open>current_start_ms\<close> to the open
  time of the page's last row plus the constant 300000, whatever interval string was
  requested; the loop returns the rows accumulated so far when a page is empty or when
  \<open>current_start_ms\<close> has reached \<open>end_ms\<close>.
\<close>

theorem fetch_step_advances_by_constant:
  "(ex (calls st) (request_params symb itv end_ms st) = Page data \<and> data \<noteq> [] \<longrightarrow>
      fetch_step ex symb itv end_ms st =
        Next \<lparr>calls = Suc (calls st), current_start_ms = open_time (last data) + 300000,
              all_data = all_data st @ data\<rparr>) \<and>
   (current_start_ms st < end_ms \<and> ex (calls st) (request_params symb itv end_ms st) = Page []
      \<longrightarrow> fetch_loop ex symb itv end_ms st = Some (Inr (all_data st))) \<and>
   (end_ms \<le> current_start_ms st \<longrightarrow> fetch_loop ex symb itv end_ms st = Some (Inr (all_data st)))"
  using fetch_step_page [of ex st symb itv end_ms data]
    fetch_loop_break [of st end_ms ex symb itv] fetch_step_empty_page [of ex st symb itv end_ms]
    fetch_loop_done [of st end_ms ex symb itv]
  by auto

theorem fetch_step_advances_by_constant_witness:
  "steady_exchange (calls \<lparr>calls = 0, current_start_ms = 0, all_data = []\<rparr>)
      (request_params ''btcusdt'' ''1h'' 86400000
         \<lparr>calls = 0, current_start_ms = 0, all_data = []\<rparr>)
     = Page [\<lparr>open_time = 0, close = 100\<rparr>] \<and>
   [\<lparr>open_time = 0, close = 100\<rparr>] \<noteq> [] \<and>
   fetch_step steady_exchange ''btcusdt'' ''1h'' 86400000
       \<lparr>calls = 0, current_start_ms = 0, all_data = []\<rparr>
     = Next \<lparr>calls = 1, current_start_ms = 300000,
             all_data = [\<lparr>open_time = 0, close = 100\<rparr>]\<rparr> \<and>
   current_start_ms \<lparr>calls = 0, current_start_ms = 0, all_data = []\<rparr> < (86400000 :: int) \<and>
   empty_exchange (calls \<lparr>calls = 0, current_start_ms = 0, all_data = []\<rparr>)
      (request_params ''btcusdt'' ''1h'' 86400000
         \<lparr>calls = 0, current_start_ms = 0, all_data = []\<rparr>) = Page [] \<and>
   fetch_loop empty_exchange ''btcusdt'' ''1h'' 86400000
       \<lparr>calls = 0, current_start_ms = 0, all_data = []\<rparr> = Some (Inr []) \<and>
   (86400000 :: int) \<le> current_start_ms \<lparr>calls = 3, current_start_ms = 86400000, all_data = []\<rparr> \<and>
   fetch_loop steady_exchange ''btcusdt'' ''1h'' 86400000
       \<lparr>calls = 3, current_start_ms = 86400000, all_data = []\<rparr> = Some (Inr [])"
  using fetch_step_advances_by_constant [of steady_exchange
      "\<lparr>calls = 0, current_start_ms = 0, all_data = []\<rparr>" "''btcusdt''" "''1h''" 86400000
      "[\<lparr>open_time = 0, close = 100\<rparr>]"]
    fetch_step_advances_by_constant [of empty_exchange
      "\<lparr>calls = 0, current_start_ms = 0, all_data = []\<rparr>" "''btcusdt''" "''1h''" 86400000 "[]"]
    fetch_step_advances_by_constant [of steady_exchange
      "\<lparr>calls = 3, current_start_ms = 86400000, all_data = []\<rparr>" "''btcusdt''" "''1h''" 86400000 "[]"]
  by (simp add: steady_exchange_def empty_exchange_def request_params_def)

text \<open>
  C2 as stated fails: for the interval \<open>1h\<close>, whose duration is 3600000 ms, the step
  still adds 300000.
\<close>

theorem advance_by_interval_counterexample:
  "interval_duration_ms ''1h'' = Some 3600000 \<and>
   fetch_step steady_exchange ''btcusdt'' ''1h'' 86400000
       \<lparr>calls = 0, current_start_ms = 0, all_data = []\<rparr>
     = Next \<lparr>calls = 1, current_start_ms = 300000,
             all_data = [\<lparr>open_time = 0, close = 100\<rparr>]\<rparr> \<and>
   current_start_ms \<lparr>calls = 1, current_start_ms = 300000,
                     all_data = [\<lparr>open_time = 0, close = 100\<rparr>]\<rparr>
     \<noteq> open_time (last [\<lparr>open_time = 0, close = 100\<rparr>]) + 3600000"
  by (simp add: interval_duration_ms_def fetch_step_def steady_exchange_def request_params_def)

section \<open>An empty result\<close>

lemma fetch_empty_exchange:
  "fetch_loop empty_exchange symb itv end_ms st = Some (Inr (all_data st))"
  by (cases "current_start_ms st < end_ms")
     (simp_all add: fetch_loop_done fetch_loop_break fetch_step_def empty_exchange_def)

lemma no_data_exception:
  "get_volatility srt empty_exchange now_ms ''nosuch'' 24 ''5m''
     = Some (Inl (HTTPException 500 ''404: No data found for nosuch''))"
  by (simp add: get_volatility_def try_block_def fetch_empty_exchange int_str_def digit_str.simps)

text \<open>
  C1: when pagination completes with no candle, the response should have status 404. The
  \<open>HTTPException\<close> with status 404 is raised inside the \<open>try\<close> block, where the
  \<open>except Exception\<close> clause catches it and raises a new one with status 500: against an
  exchange with no candles the request is answered with 500.
\<close>

theorem no_data_answers_500:
  "map_option status_code (get_volatility srt empty_exchange now_ms ''nosuch'' 24 ''5m'')
     = Some 500"
  by (simp add: get_volatility_def try_block_def fetch_empty_exchange int_str_def digit_str.simps)

section \<open>The return series and the rolling window\<close>

lemma length_returns: "length (returns closes) = length closes"
  by (cases closes) (simp_all add: returns_def)

lemma length_log_ratios: "length (log_ratios closes) = length closes - 1"
  by (cases closes) (simp_all add: log_ratios_def)

lemma log_ratios_nth:
  "i < length closes - 1 \<Longrightarrow> log_ratios closes ! i = ln (closes ! Suc i / closes ! i)"
  by (cases closes) (simp_all add: log_ratios_def)

lemma log_return_positive: "0 < c \<Longrightarrow> 0 < p \<Longrightarrow> log_return c p = Num (ln (c / p))"
  by (simp add: log_return_def not_less divide_nonneg_pos less_imp_le)

lemma returns_positive:
  assumes "\<forall>c\<in>set closes. 0 < c" and "closes \<noteq> []"
  shows "returns closes = NaN # map Num (log_ratios closes)"
proof -
  from assms(2) obtain c cs where closes: "closes = c # cs" by (cases closes) auto
  have "map2 log_return cs closes = map Num (map2 (\<lambda>c p. ln (c / p)) cs closes)"
    unfolding map_map
  proof (rule map_cong [OF refl])
    fix ab assume ab: "ab \<in> set (zip cs closes)"
    obtain a b where [simp]: "ab = (a, b)" by (cases ab)
    from ab have "a \<in> set cs" and "b \<in> set closes"
      by (auto dest: set_zip_leftD set_zip_rightD)
    with assms(1) closes have "0 < fst ab" and "0 < snd ab" by auto
    then show "(case ab of (c, p) \<Rightarrow> log_return c p) = (Num \<circ> (\<lambda>(c, p). ln (c / p))) ab"
      by (simp add: log_return_positive split_beta)
  qed
  with closes show ?thesis by (simp add: returns_def log_ratios_def)
qed

lemma nums_map_Num: "nums (map Num xs) = xs"
  by (induction xs) simp_all

lemma window_short:
  "i < w \<Longrightarrow> nums (drop (i + 1 - w) (take (i + 1) (NaN # map Num rs))) = take i rs"
  by (simp add: take_map nums_map_Num)

lemma window_full:
  assumes "w \<le> i" and "0 < w"
  shows "nums (drop (i + 1 - w) (take (i + 1) (NaN # map Num rs))) = drop (i - w) (take i rs)"
proof -
  from assms have "i + 1 - w = Suc (i - w)" by simp
  then show ?thesis
    by (simp add: take_map drop_map nums_map_Num)
qed

lemma rolling_std_nth:
  "i < length xs \<Longrightarrow> rolling_std w xs ! i = window_std w (drop (i + 1 - w) (take (i + 1) xs))"
  by (simp add: rolling_std_def)

lemma window_size_12: "window_size = 12"
  by (simp add: window_size_def intervals_per_hour_def minutes_per_interval_def)

lemma length_vol_1h_bps: "length (vol_1h_bps closes) = length closes"
  by (simp add: vol_1h_bps_def rolling_std_def length_returns)

lemma vol_1h_bps_nth:
  assumes "\<forall>c\<in>set closes. 0 < c" and "i < length closes"
  shows "vol_1h_bps closes ! i =
     (if i < 12 then None
      else Some (sqrt (sample_var (drop (i - 12) (take i (log_ratios closes)))) * sqrt 12 * 10000))"
proof -
  from assms(2) have ne: "closes \<noteq> []" by auto
  note ret = returns_positive [OF assms(1) ne]
  have i: "i \<le> length (log_ratios closes)"
    using assms(2) by (simp add: length_log_ratios)
  have nth: "vol_1h_bps closes ! i =
      scale_bps (window_std 12 (drop (i + 1 - 12) (take (i + 1) (NaN # map Num (log_ratios closes)))))"
    using assms(2) by (simp add: vol_1h_bps_def rolling_std_def length_returns window_size_12 ret [symmetric])
  show ?thesis
  proof (cases "i < 12")
    case True
    have w: "nums (drop (i + 1 - 12) (take (i + 1) (NaN # map Num (log_ratios closes))))
        = take i (log_ratios closes)"
      using True by (rule window_short)
    from True have "length (take i (log_ratios closes)) < 12" by simp
    with True show ?thesis
      unfolding nth window_std_def Let_def w by (simp add: scale_bps_def del: length_take)
  next
    case False
    then have "12 \<le> i" by simp
    then have w: "nums (drop (i + 1 - 12) (take (i + 1) (NaN # map Num (log_ratios closes))))
        = drop (i - 12) (take i (log_ratios closes))"
      by (rule window_full) simp
    have len: "length (drop (i - 12) (take i (log_ratios closes))) = 12"
      using i \<open>12 \<le> i\<close> by simp
    from False show ?thesis
      unfolding nth window_std_def Let_def w len
      by (simp add: scale_bps_def intervals_per_hour_def minutes_per_interval_def)
  qed
qed

lemma sample_var_nonneg: "0 \<le> sample_var xs"
  by (auto simp: sample_var_def Let_def intro!: divide_nonneg_nonneg sum_list_nonneg)

lemma window_std_nonneg: "window_std w win = Some s \<Longrightarrow> 0 \<le> s"
  by (auto simp: window_std_def Let_def sample_var_nonneg split: if_splits)

lemma vol_1h_bps_nonneg:
  assumes "Some v \<in> set (vol_1h_bps closes)"
  shows "0 \<le> v"
proof -
  from assms obtain x where x: "x \<in> set (rolling_std window_size (returns closes))"
    and "scale_bps x = Some v"
    by (auto simp: vol_1h_bps_def)
  then obtain s where "Some s \<in> set (rolling_std window_size (returns closes))"
    and v: "v = s * sqrt (real intervals_per_hour) * 10000"
    by (cases x) (auto simp: scale_bps_def)
  then obtain win where "window_std window_size win = Some s"
    by (auto simp: rolling_std_def)
  then have "0 \<le> s" by (rule window_std_nonneg)
  with v show ?thesis by simp
qed

lemma sum_sq_commute: "(\<Sum>x\<leftarrow>xs. (a - x)\<^sup>2) = (\<Sum>x\<leftarrow>xs. (x - a)\<^sup>2)" for a :: real
  by (simp add: power2_commute)

lemma series_std_numbers: "series_std (NaN # map Num rs) = stddev rs"
proof -
  have f: "filter (\<lambda>x. x \<noteq> NaN) (map Num rs) = map Num rs"
    by (simp add: filter_map comp_def)
  have "Infinite \<notin> set (map Num rs)" by auto
  moreover have "real (length rs - 1) = real (length rs) - 1" if "\<not> length rs \<le> 1"
    using that by simp
  ultimately show ?thesis
    by (auto simp: series_std_def f nums_map_Num stddev_def sample_var_def mean_def Let_def
        sum_sq_commute simp del: set_map)
qed

section \<open>A request answered from one page\<close>

lemma fetch_one_page:
  assumes "cs \<noteq> []" and "start_ms < end_ms" and "end_ms \<le> open_time (last cs) + 300000"
  shows "fetch_loop (one_page_exchange cs) symb itv end_ms
           \<lparr>calls = 0, current_start_ms = start_ms, all_data = []\<rparr> = Some (Inr cs)"
proof -
  let ?st = "\<lparr>calls = 0, current_start_ms = start_ms, all_data = []\<rparr>"
  let ?st' = "\<lparr>calls = Suc 0, current_start_ms = open_time (last cs) + 300000, all_data = cs\<rparr>"
  from assms(1) have "fetch_step (one_page_exchange cs) symb itv end_ms ?st = Next ?st'"
    by (simp add: fetch_step_def one_page_exchange_def)
  with assms(2) have "fetch_loop (one_page_exchange cs) symb itv end_ms ?st
      = fetch_loop (one_page_exchange cs) symb itv end_ms ?st'"
    by (simp add: fetch_loop_next)
  also from assms(3) have "\<dots> = Some (Inr cs)" by (simp add: fetch_loop_done)
  finally show ?thesis .
qed

lemma log_ratios_thirteen:
  "log_ratios thirteen_closes = [0, 0, 0, 0, 0, 0, 0, 0, 0, 0, 0, ln 2]"
  by (simp add: log_ratios_def)

lemma sample_var_thirteen:
  "sample_var [0, 0, 0, 0, 0, 0, 0, 0, 0, 0, 0, ln 2] = (ln 2)\<^sup>2 / 12"
  by (simp add: sample_var_def power2_eq_square field_simps)

lemma std_thirteen: "sqrt ((ln 2)\<^sup>2 / 12) * sqrt 12 * 10000 = ln 2 * 10000"
proof -
  have "sqrt ((ln 2)\<^sup>2 / 12) * sqrt 12 = sqrt ((ln 2)\<^sup>2 / 12 * 12)"
    by (simp only: real_sqrt_mult)
  also have "\<dots> = ln (2 :: real)" by simp
  finally show ?thesis by simp
qed

lemma vol_thirteen:
  "vol_1h_bps thirteen_closes = replicate 12 None @ [Some (ln 2 * 10000)]"
proof (rule nth_equalityI)
  show "length (vol_1h_bps thirteen_closes) = length (replicate 12 None @ [Some (ln 2 * 10000)])"
    by (simp add: length_vol_1h_bps)
next
  fix i assume "i < length (vol_1h_bps thirteen_closes)"
  then have i: "i < 13" by (simp add: length_vol_1h_bps)
  have pos: "\<forall>c\<in>set thirteen_closes. 0 < c" by simp
  have nth: "vol_1h_bps thirteen_closes ! i =
     (if i < 12 then None
      else Some (sqrt (sample_var (drop (i - 12) (take i (log_ratios thirteen_closes))))
             * sqrt 12 * 10000))"
    using i by (intro vol_1h_bps_nth [OF pos]) simp
  show "vol_1h_bps thirteen_closes ! i = (replicate 12 None @ [Some (ln 2 * 10000)]) ! i"
  proof (cases "i < 12")
    case True
    then show ?thesis
      unfolding nth by (simp add: nth_append)
  next
    case False
    with i have "i = 12" by simp
    then show ?thesis
      unfolding nth log_ratios_thirteen
      by (simp add: nth_append sample_var_thirteen std_thirteen)
  qed
qed

lemma overall_thirteen: "overall_vol thirteen_closes = Some (ln 2 * 10000)"
proof -
  have pos: "\<forall>c\<in>set thirteen_closes. 0 < c" by simp
  have "returns thirteen_closes = NaN # map Num (log_ratios thirteen_closes)"
    by (rule returns_positive [OF pos]) simp
  then have "series_std (returns thirteen_closes) = stddev (log_ratios thirteen_closes)"
    by (simp only: series_std_numbers)
  also have "\<dots> = Some (sqrt ((ln 2)\<^sup>2 / 12))"
    unfolding log_ratios_thirteen
    by (simp add: stddev_def mean_def power2_eq_square field_simps)
  finally show ?thesis
    using std_thirteen
    by (simp add: overall_vol_def scale_bps_def intervals_per_hour_def minutes_per_interval_def)
qed

lemma sort_thirteen: "sort_key open_time thirteen_candles = thirteen_candles"
  by (simp add: thirteen_candles_def)

lemma closes_thirteen: "map close thirteen_candles = thirteen_closes"
  by (simp add: thirteen_candles_def)

lemma series_max_thirteen: "series_max (replicate 12 None @ [Some v]) = Some v"
  by (simp add: series_max_def List.map_filter_def)

lemma series_min_thirteen: "series_min (replicate 12 None @ [Some v]) = Some v"
  by (simp add: series_min_def List.map_filter_def)

lemma build_response_thirteen:
  "build_response (sort_key open_time) ''btcusdt'' thirteen_candles =
     \<lparr>symbol = ''btcusdt'', average_vol = Some (ln 2 * 10000), max_vol = Some (ln 2 * 10000),
      min_vol = Some (ln 2 * 10000), current_vol = Some (ln 2 * 10000),
      timestamps = map open_time thirteen_candles,
      rolling_vols = replicate 12 0 @ [ln 2 * 10000],
      prices = thirteen_closes\<rparr>"
  unfolding build_response_def Let_def sort_thirteen closes_thirteen vol_thirteen overall_thirteen
    series_max_thirteen series_min_thirteen
  by (simp add: fillna_def)

lemma fetch_thirteen:
  "fetch_loop (one_page_exchange thirteen_candles) ''btcusdt'' ''5m'' 3900000
     \<lparr>calls = 0, current_start_ms = 3900000 - 1 * 3600000, all_data = []\<rparr>
   = Some (Inr thirteen_candles)"
  by (rule fetch_one_page) (simp_all add: thirteen_candles_def)

lemma get_volatility_thirteen:
  "get_volatility (sort_key open_time) (one_page_exchange thirteen_candles) 3900000
      ''btcusdt'' 1 ''5m''
   = Some (Inr (build_response (sort_key open_time) ''btcusdt'' thirteen_candles))"
proof -
  have "thirteen_candles \<noteq> []" by (simp add: thirteen_candles_def)
  then show ?thesis
    unfolding get_volatility_def try_block_def Let_def fetch_thirteen by simp
qed

section \<open>The assembled response\<close>

lemma get_volatility_success:
  assumes "get_volatility srt ex now_ms symb lookback_hours itv = Some (Inr resp)"
    and "fetch_loop ex symb itv now_ms
           \<lparr>calls = 0, current_start_ms = now_ms - lookback_hours * 3600000, all_data = []\<rparr>
         = Some (Inr fetched)"
  shows "fetched \<noteq> [] \<and> resp = build_response srt symb fetched"
  using assms
  by (auto simp: get_volatility_def try_block_def Let_def split: if_splits)

lemma map_filter_id_set: "set (List.map_filter id xs) = {v. Some v \<in> set xs}"
  by (induction xs) (auto split: option.splits)

lemma series_max_eq:
  assumes "Some v \<in> set xs"
  shows "series_max xs = Some (Max {v. Some v \<in> set xs})"
proof -
  from assms have "List.map_filter id xs \<noteq> []"
    using map_filter_id_set [of xs] by auto
  then obtain y ys where ys: "List.map_filter id xs = y # ys"
    by (cases "List.map_filter id xs") auto
  have "Max (set (y # ys)) = fold max ys y" by (rule Max.set_eq_fold)
  with ys show ?thesis
    by (simp add: series_max_def map_filter_id_set [symmetric])
qed

lemma series_min_eq:
  assumes "Some v \<in> set xs"
  shows "series_min xs = Some (Min {v. Some v \<in> set xs})"
proof -
  from assms have "List.map_filter id xs \<noteq> []"
    using map_filter_id_set [of xs] by auto
  then obtain y ys where ys: "List.map_filter id xs = y # ys"
    by (cases "List.map_filter id xs") auto
  have "Min (set (y # ys)) = fold min ys y" by (rule Min.set_eq_fold)
  with ys show ?thesis
    by (simp add: series_min_def map_filter_id_set [symmetric])
qed

text \<open>
  C4, as amended: in a successful response whose rolling series has at least one defined
  value, \<open>max_vol\<close> and \<open>min_vol\<close> are the maximum and the minimum of the defined rolling
  values only; the undefined leading rows are skipped, not counted as 0.
\<close>

theorem max_min_skip_undefined:
  assumes "get_volatility srt ex now_ms symb lookback_hours itv = Some (Inr resp)"
    and "fetch_loop ex symb itv now_ms
           \<lparr>calls = 0, current_start_ms = now_ms - lookback_hours * 3600000, all_data = []\<rparr>
         = Some (Inr fetched)"
    and "Some v \<in> set (vol_1h_bps (map close (srt fetched)))"
  shows "max_vol resp = Some (Max {v. Some v \<in> set (vol_1h_bps (map close (srt fetched)))}) \<and>
         min_vol resp = Some (Min {v. Some v \<in> set (vol_1h_bps (map close (srt fetched)))})"
  using get_volatility_success [OF assms(1, 2)] series_max_eq [OF assms(3)] series_min_eq [OF assms(3)]
  by (simp add: build_response_def Let_def)

theorem max_min_skip_undefined_witness:
  "get_volatility (sort_key open_time) (one_page_exchange thirteen_candles) 3900000
      ''btcusdt'' 1 ''5m''
     = Some (Inr (build_response (sort_key open_time) ''btcusdt'' thirteen_candles)) \<and>
   fetch_loop (one_page_exchange thirteen_candles) ''btcusdt'' ''5m'' 3900000
       \<lparr>calls = 0, current_start_ms = 3900000 - 1 * 3600000, all_data = []\<rparr>
     = Some (Inr thirteen_candles) \<and>
   Some (ln 2 * 10000) \<in> set (vol_1h_bps (map close (sort_key open_time thirteen_candles))) \<and>
   max_vol (build_response (sort_key open_time) ''btcusdt'' thirteen_candles)
     = Some (Max {v. Some v \<in> set (vol_1h_bps (map close (sort_key open_time thirteen_candles)))}) \<and>
   min_vol (build_response (sort_key open_time) ''btcusdt'' thirteen_candles)
     = Some (Min {v. Some v \<in> set (vol_1h_bps (map close (sort_key open_time thirteen_candles)))})"
proof -
  have v: "Some (ln 2 * 10000) \<in> set (vol_1h_bps (map close (sort_key open_time thirteen_candles)))"
    unfolding sort_thirteen closes_thirteen vol_thirteen by simp
  from max_min_skip_undefined [OF get_volatility_thirteen fetch_thirteen v]
    get_volatility_thirteen fetch_thirteen v
  show ?thesis by blast
qed

text \<open>
  C4 as stated fails: for thirteen candles the zero-filled series starts with twelve zeros,
  so its minimum is 0, while \<open>min_vol\<close> is the one defined value \<open>ln 2 * 10000\<close>.
\<close>

theorem min_vol_zero_filled_counterexample:
  "get_volatility (sort_key open_time) (one_page_exchange thirteen_candles) 3900000
      ''btcusdt'' 1 ''5m''
     = Some (Inr (build_response (sort_key open_time) ''btcusdt'' thirteen_candles)) \<and>
   rolling_vols (build_response (sort_key open_time) ''btcusdt'' thirteen_candles)
     = [0, 0, 0, 0, 0, 0, 0, 0, 0, 0, 0, 0, ln 2 * 10000] \<and>
   min_vol (build_response (sort_key open_time) ''btcusdt'' thirteen_candles)
     = Some (ln 2 * 10000) \<and>
   Min (set (rolling_vols (build_response (sort_key open_time) ''btcusdt'' thirteen_candles))) = 0 \<and>
   min_vol (build_response (sort_key open_time) ''btcusdt'' thirteen_candles)
     \<noteq> Some (Min (set (rolling_vols (build_response (sort_key open_time) ''btcusdt''
                                       thirteen_candles)))) \<and>
   min_vol (build_response (sort_key open_time) ''btcusdt'' thirteen_candles) \<noteq> Some 0"
proof -
  have "Min (set [0, 0, 0, 0, 0, 0, 0, 0, 0, 0, 0, 0, ln 2 * 10000 :: real]) = 0"
    by simp
  moreover have "replicate 12 (0 :: real) = [0, 0, 0, 0, 0, 0, 0, 0, 0, 0, 0, 0]"
    by (simp add: eval_nat_numeral)
  ultimately show ?thesis
    unfolding get_volatility_thirteen build_response_thirteen by simp
qed

lemma fetch_single:
  "fetch_loop (one_page_exchange [\<lparr>open_time = 86100000, close = 100\<rparr>]) ''btcusdt'' ''5m''
     86400000 \<lparr>calls = 0, current_start_ms = 86400000 - 24 * 3600000, all_data = []\<rparr>
   = Some (Inr [\<lparr>open_time = 86100000, close = 100\<rparr>])"
  by (rule fetch_one_page) simp_all

lemma build_response_single:
  "build_response (sort_key open_time) ''btcusdt'' [\<lparr>open_time = 86100000, close = 100\<rparr>] =
     \<lparr>symbol = ''btcusdt'', average_vol = None, max_vol = None, min_vol = None,
      current_vol = None, timestamps = [86100000], rolling_vols = [0], prices = [100]\<rparr>"
  by (simp add: build_response_def Let_def vol_1h_bps_def overall_vol_def returns_def
      rolling_std_def window_std_def series_std_def scale_bps_def series_max_def series_min_def
      fillna_def window_size_12)

lemma get_volatility_single:
  "get_volatility (sort_key open_time)
      (one_page_exchange [\<lparr>open_time = 86100000, close = 100\<rparr>]) 86400000 ''btcusdt'' 24 ''5m''
   = Some (Inr \<lparr>symbol = ''btcusdt'', average_vol = None, max_vol = None, min_vol = None,
                current_vol = None, timestamps = [86100000], rolling_vols = [0],
                prices = [100]\<rparr>)"
  unfolding get_volatility_def try_block_def Let_def fetch_single
  by (simp add: build_response_single)

text \<open>
  C3: the rolling list of a response has its undefined rows rendered as 0, and \<open>current_vol\<close>
  should be the last row rendered the same way. The list goes through \<open>fillna(0)\<close>, but
  \<open>current_vol\<close> reads the last row of the column as it is: for a single candle the list is
  \<open>[0]\<close> and \<open>current_vol\<close> is NaN.
\<close>

theorem current_vol_not_zero_filled:
  "map_option (map_sum id (\<lambda>r. (current_vol r, rolling_vols r)))
     (get_volatility (sort_key open_time)
        (one_page_exchange [\<lparr>open_time = 86100000, close = 100\<rparr>]) 86400000 ''btcusdt'' 24 ''5m'')
   = Some (Inr (None, [0]))"
  unfolding get_volatility_single by simp

lemma length_fillna: "length (fillna d xs) = length xs"
  by (simp add: fillna_def)

lemma sorts_length: "sorts_by_timestamp srt \<Longrightarrow> length (srt xs) = length xs"
  unfolding sorts_by_timestamp_def by (metis size_mset)

lemma sort_key_sorts: "sorts_by_timestamp (sort_key open_time)"
  by (simp add: sorts_by_timestamp_def)

section \<open>The pages of a run\<close>

lemma received_pages_fetch_loop:
  assumes "received_pages ex symb itv end_ms n start pages"
  shows "calls st = n \<Longrightarrow> current_start_ms st = start \<Longrightarrow>
     fetch_loop ex symb itv end_ms st = Some (Inr (all_data st @ concat pages))"
  using assms
proof (induction arbitrary: st rule: received_pages.induct)
  case (range_covered start n)
  then show ?case by (simp add: fetch_loop_done)
next
  case (empty_page start n)
  then have "fetch_step ex symb itv end_ms st = Break"
    by (simp add: fetch_step_def request_params_def)
  with empty_page show ?case by (simp add: fetch_loop_break)
next
  case (next_page start n data pages)
  let ?st' = "\<lparr>calls = Suc (calls st), current_start_ms = open_time (last data) + 300000,
              all_data = all_data st @ data\<rparr>"
  from next_page have step: "fetch_step ex symb itv end_ms st = Next ?st'"
    by (simp add: fetch_step_def request_params_def)
  from next_page have "fetch_loop ex symb itv end_ms ?st'
      = Some (Inr (all_data ?st' @ concat pages))"
    by (intro next_page.IH) simp_all
  with next_page step show ?case by (simp add: fetch_loop_next)
qed

lemma fetch_loop_received_pages:
  assumes "fetch_loop ex symb itv end_ms st = Some y"
  shows "\<forall>r. y = Inr r \<longrightarrow>
     (\<exists>pages. received_pages ex symb itv end_ms (calls st) (current_start_ms st) pages)"
proof (rule fetch_loop.raw_induct
    [where P = "\<lambda>ex symb itv end_ms st y. \<forall>r. y = Inr r \<longrightarrow>
        (\<exists>pages. received_pages ex symb itv end_ms (calls st) (current_start_ms st) pages)",
      OF _ assms])
  fix fl :: "exchange \<Rightarrow> string \<Rightarrow> string \<Rightarrow> int \<Rightarrow> fetch_state
     \<Rightarrow> (py_exception + candle list) option"
  fix ex :: exchange and symb itv :: string and end_ms :: int and st :: fetch_state
    and y :: "py_exception + candle list"
  assume IH: "\<And>ex symb itv end_ms st y.
      fl ex symb itv end_ms st = Some y \<Longrightarrow> \<forall>r. y = Inr r \<longrightarrow>
        (\<exists>pages. received_pages ex symb itv end_ms (calls st) (current_start_ms st) pages)"
  assume unfolded: "(if current_start_ms st < end_ms
      then case fetch_step ex symb itv end_ms st of
             Raise e \<Rightarrow> Some (Inl e)
           | Break \<Rightarrow> Some (Inr (all_data st))
           | Next st' \<Rightarrow> fl ex symb itv end_ms st'
      else Some (Inr (all_data st))) = Some y"
  show "\<forall>r. y = Inr r \<longrightarrow>
     (\<exists>pages. received_pages ex symb itv end_ms (calls st) (current_start_ms st) pages)"
  proof (intro allI impI)
    fix r assume y: "y = Inr r"
    show "\<exists>pages. received_pages ex symb itv end_ms (calls st) (current_start_ms st) pages"
    proof (cases "current_start_ms st < end_ms")
      case False
      then have "received_pages ex symb itv end_ms (calls st) (current_start_ms st) []"
        by (intro received_pages.range_covered) simp
      then show ?thesis ..
    next
      case True
      let ?p = "\<lparr>q_symbol = upper symb, q_interval = itv, startTime = current_start_ms st,
                 endTime = end_ms, limit = 1000\<rparr>"
      show ?thesis
      proof (cases "ex (calls st) ?p")
        case (HTTPFail msg)
        with unfolded True y show ?thesis
          by (simp add: fetch_step_def request_params_def)
      next
        case (Page data)
        show ?thesis
        proof (cases "data = []")
          case True
          with Page \<open>current_start_ms st < end_ms\<close>
          have "received_pages ex symb itv end_ms (calls st) (current_start_ms st) []"
            by (intro received_pages.empty_page) simp_all
          then show ?thesis ..
        next
          case False
          let ?st' = "\<lparr>calls = Suc (calls st),
              current_start_ms = open_time (last data) + 300000,
              all_data = all_data st @ data\<rparr>"
          from unfolded True Page False have "fl ex symb itv end_ms ?st' = Some y"
            by (simp add: fetch_step_def request_params_def)
          from IH [OF this] y obtain pages where
            "received_pages ex symb itv end_ms (Suc (calls st))
               (open_time (last data) + 300000) pages"
            by auto
          with True Page False
          have "received_pages ex symb itv end_ms (calls st) (current_start_ms st) (data # pages)"
            by (intro received_pages.next_page) simp_all
          then show ?thesis ..
        qed
      qed
    qed
  qed
qed

section \<open>The return series of every series\<close>

lemma returns_nth:
  "1 \<le> i \<Longrightarrow> i < length closes \<Longrightarrow>
   returns closes ! i = log_return (closes ! i) (closes ! (i - 1))"
  by (cases closes; cases i) (simp_all add: returns_def)

lemma returns_0: "closes \<noteq> [] \<Longrightarrow> returns closes ! 0 = NaN"
  by (cases closes) (simp_all add: returns_def)

lemma log_return_Num:
  "p \<noteq> 0 \<Longrightarrow> 0 < c / p \<Longrightarrow> log_return c p = Num (ln (c / p))"
  by (auto simp: log_return_def)

lemma log_return_Num_iff:
  "(\<exists>r. log_return c p = Num r) \<longleftrightarrow> p \<noteq> 0 \<and> 0 < c / p"
  by (auto simp: log_return_def not_less order_less_le)

lemma positive_closes_ratios: "\<forall>c\<in>set closes. 0 < c \<Longrightarrow> positive_ratios closes"
  by (induction closes rule: positive_ratios.induct) auto

lemma returns_ratios:
  "positive_ratios closes \<Longrightarrow> closes \<noteq> [] \<Longrightarrow>
   returns closes = NaN # map Num (log_ratios closes)"
proof (induction closes rule: positive_ratios.induct)
  case 1
  then show ?case by simp
next
  case (2 c)
  show ?case by (simp add: returns_def log_ratios_def)
next
  case (3 p c cs)
  then have "returns (c # cs) = NaN # map Num (log_ratios (c # cs))" by simp
  with "3.prems" show ?case
    by (simp add: returns_def log_ratios_def log_return_Num)
qed

lemma length_nums_le: "length (nums xs) \<le> length xs"
  by (induction xs rule: nums.induct) auto

lemma length_nums_eq: "length (nums xs) = length xs \<longleftrightarrow> (\<forall>x\<in>set xs. \<exists>r. x = Num r)"
proof (induction xs rule: nums.induct)
  case 1
  show ?case by simp
next
  case (2 v xs)
  then show ?case by simp
next
  case (3 xs)
  have "length (nums xs) \<le> length xs" by (rule length_nums_le)
  then show ?case by auto
next
  case (4 xs)
  have "length (nums xs) \<le> length xs" by (rule length_nums_le)
  then show ?case by auto
qed

lemma set_window:
  assumes "i < length xs"
  shows "set (drop (i + 1 - w) (take (i + 1) xs)) = {xs ! j | j. i + 1 - w \<le> j \<and> j \<le> i}"
proof -
  have len: "length (take (i + 1) xs) = i + 1" using assms by simp
  show ?thesis
  proof (intro set_eqI iffI)
    fix x assume "x \<in> set (drop (i + 1 - w) (take (i + 1) xs))"
    then obtain k where k: "k < length (drop (i + 1 - w) (take (i + 1) xs))"
      and x: "x = drop (i + 1 - w) (take (i + 1) xs) ! k"
      by (auto simp: in_set_conv_nth)
    from k len have "i + 1 - w + k \<le> i" by simp
    moreover from x k this have "x = xs ! (i + 1 - w + k)" by simp
    ultimately show "x \<in> {xs ! j | j. i + 1 - w \<le> j \<and> j \<le> i}" by auto
  next
    fix x assume "x \<in> {xs ! j | j. i + 1 - w \<le> j \<and> j \<le> i}"
    then obtain j where j: "i + 1 - w \<le> j" "j \<le> i" and x: "x = xs ! j" by auto
    then have "j - (i + 1 - w) < length (drop (i + 1 - w) (take (i + 1) xs))"
      using len by auto
    moreover from j x have "drop (i + 1 - w) (take (i + 1) xs) ! (j - (i + 1 - w)) = x"
      using len by simp
    ultimately show "x \<in> set (drop (i + 1 - w) (take (i + 1) xs))"
      by (metis nth_mem)
  qed
qed

lemma vol_defined_nums:
  assumes "i < length closes"
  shows "vol_1h_bps closes ! i \<noteq> None \<longleftrightarrow>
     12 \<le> length (nums (drop (i + 1 - 12) (take (i + 1) (returns closes))))"
  using assms
  by (auto simp: vol_1h_bps_def rolling_std_def length_returns window_size_12 window_std_def
      scale_bps_def Let_def)

lemma vol_defined_rows:
  assumes "i < length closes"
  shows "vol_1h_bps closes ! i \<noteq> None \<longleftrightarrow>
     12 \<le> i \<and> (\<forall>j. i - 11 \<le> j \<and> j \<le> i \<longrightarrow> (\<exists>r. returns closes ! j = Num r))"
proof -
  let ?win = "drop (i + 1 - 12) (take (i + 1) (returns closes))"
  from assms have ne: "closes \<noteq> []" by auto
  from assms have ilen: "i < length (returns closes)" by (simp add: length_returns)
  have lenwin: "length ?win = min (i + 1) 12" using ilen by auto
  have le: "length (nums ?win) \<le> length ?win" by (rule length_nums_le)
  show ?thesis
  proof (cases "12 \<le> i")
    case True
    then have "length ?win = 12" using lenwin by simp
    with le have "12 \<le> length (nums ?win) \<longleftrightarrow> length (nums ?win) = length ?win" by simp
    also have "\<dots> \<longleftrightarrow> (\<forall>x\<in>set ?win. \<exists>r. x = Num r)" by (rule length_nums_eq)
    also have "\<dots> \<longleftrightarrow> (\<forall>j. i + 1 - 12 \<le> j \<and> j \<le> i \<longrightarrow> (\<exists>r. returns closes ! j = Num r))"
      unfolding set_window [OF ilen] by blast
    also have "\<dots> \<longleftrightarrow> (\<forall>j. i - 11 \<le> j \<and> j \<le> i \<longrightarrow> (\<exists>r. returns closes ! j = Num r))"
      using True by simp
    finally have "12 \<le> length (nums ?win) \<longleftrightarrow>
        (\<forall>j. i - 11 \<le> j \<and> j \<le> i \<longrightarrow> (\<exists>r. returns closes ! j = Num r))" .
    with True show ?thesis unfolding vol_defined_nums [OF assms] by blast
  next
    case False
    show ?thesis
    proof (cases "i = 11")
      case True
      then have "returns closes ! 0 \<in> set ?win"
        unfolding set_window [OF ilen] by auto
      then have "\<not> (\<forall>x\<in>set ?win. \<exists>r. x = Num r)"
        using returns_0 [OF ne] by auto
      then have "length (nums ?win) \<noteq> length ?win"
        using length_nums_eq [of ?win] by blast
      with le lenwin True have "length (nums ?win) < 12" by simp
      with False show ?thesis unfolding vol_defined_nums [OF assms] by simp
    next
      case neq: False
      with False lenwin have "length ?win < 12" by simp
      with le have "length (nums ?win) < 12" by simp
      with False show ?thesis unfolding vol_defined_nums [OF assms] by simp
    qed
  qed
qed

lemma vol_defined_ratios:
  assumes "positive_ratios closes" and "i < length closes"
  shows "vol_1h_bps closes ! i \<noteq> None \<longleftrightarrow> 12 \<le> i"
proof -
  from assms(2) have ne: "closes \<noteq> []" by auto
  note ret = returns_ratios [OF assms(1) ne]
  have "\<exists>r. returns closes ! j = Num r" if "1 \<le> j" and "j \<le> i" for j
  proof -
    from that assms(2) have "j - 1 < length (log_ratios closes)"
      by (simp add: length_log_ratios)
    with that show ?thesis by (cases j) (simp_all add: ret)
  qed
  then show ?thesis
    unfolding vol_defined_rows [OF assms(2)] by auto
qed

lemma filter_notna_le: "closes \<noteq> [] \<Longrightarrow>
  length (filter (\<lambda>x. x \<noteq> NaN) (returns closes)) \<le> length closes - 1"
proof -
  assume "closes \<noteq> []"
  then obtain c cs where "closes = c # cs" by (cases closes) auto
  then have "length (filter (\<lambda>x. x \<noteq> NaN) (returns closes))
      = length (filter (\<lambda>x. x \<noteq> NaN) (map2 log_return cs closes))"
    by (simp add: returns_def)
  also have "\<dots> \<le> length (map2 log_return cs closes)" by (rule length_filter_le)
  also have "\<dots> = length closes - 1" using \<open>closes = c # cs\<close> by simp
  finally show ?thesis .
qed


text \<open>
  C5, as amended: for every series of \<open>N \<ge> 1\<close> closes the return series has \<open>N\<close> rows and
  row 0 is undefined; every row \<open>i \<ge> 1\<close> whose ratio \<open>close[i] / close[i-1]\<close> is positive,
  with \<open>close[i-1]\<close> not zero, is \<open>ln (close[i] / close[i-1])\<close>; at most \<open>N - 1\<close> rows are
  defined, and exactly \<open>N - 1\<close> when every ratio of consecutive closes is positive, as it
  is for positive prices.
\<close>

theorem returns_defined:
  assumes "closes \<noteq> []"
  shows "length (returns closes) = length closes \<and>
     returns closes ! 0 = NaN \<and>
     (\<forall>i. 1 \<le> i \<and> i < length closes \<and> closes ! (i - 1) \<noteq> 0
           \<and> 0 < closes ! i / closes ! (i - 1) \<longrightarrow>
        returns closes ! i = Num (ln (closes ! i / closes ! (i - 1)))) \<and>
     length (filter (\<lambda>x. x \<noteq> NaN) (returns closes)) \<le> length closes - 1 \<and>
     (positive_ratios closes \<longrightarrow>
        length (filter (\<lambda>x. x \<noteq> NaN) (returns closes)) = length closes - 1)"
proof -
  have "length (filter (\<lambda>x. x \<noteq> NaN) (returns closes)) = length closes - 1"
    if "positive_ratios closes"
  proof -
    have "filter (\<lambda>x. x \<noteq> NaN) (map Num (log_ratios closes)) = map Num (log_ratios closes)"
      by (simp add: filter_map comp_def)
    then show ?thesis
      by (simp add: returns_ratios [OF that assms] length_log_ratios)
  qed
  then show ?thesis
    using assms filter_notna_le [OF assms]
    by (simp add: length_returns returns_0 returns_nth log_return_Num)
qed

theorem returns_defined_witness:
  "[100, 101, 100 :: real] \<noteq> [] \<and> positive_ratios [100, 101, 100] \<and>
   length (returns [100, 101, 100]) = 3 \<and>
   returns [100, 101, 100] ! 0 = NaN \<and>
   returns [100, 101, 100] ! 1 = Num (ln (101 / 100)) \<and>
   returns [100, 101, 100] ! 2 = Num (ln (100 / 101)) \<and>
   length (filter (\<lambda>x. x \<noteq> NaN) (returns [100, 101, 100])) = 2"
proof -
  have ne: "[100, 101, 100 :: real] \<noteq> []" by simp
  have pos: "positive_ratios [100, 101, 100]" by simp
  note t = returns_defined [OF ne]
  from t have "returns [100, 101, 100] ! 1 = Num (ln ([100, 101, 100] ! 1 / [100, 101, 100] ! (1 - 1)))"
    by simp
  moreover from t
  have "returns [100, 101, 100] ! 2 = Num (ln ([100, 101, 100] ! 2 / [100, 101, 100] ! (2 - 1)))"
    by simp
  ultimately show ?thesis using t pos by simp
qed

text \<open>
  C5 as stated fails: after a negative close the ratio is negative and its logarithm is
  NaN, so the series 100, -100, 100 has no defined return, not two.
\<close>

theorem returns_negative_close_counterexample:
  "[100, - 100, 100 :: real] \<noteq> [] \<and>
   returns [100, - 100, 100] = [NaN, NaN, NaN] \<and>
   returns [100, - 100, 100] ! 1 \<noteq> Num (ln (- 100 / 100)) \<and>
   length (filter (\<lambda>x. x \<noteq> NaN) (returns [100, - 100, 100])) = 0 \<and>
   length (filter (\<lambda>x. x \<noteq> NaN) (returns [100, - 100, 100]))
     \<noteq> length [100, - 100, 100 :: real] - 1"
  by (simp add: returns_def log_return_def)

section \<open>The rolling volatility of every series\<close>

text \<open>
  C6, as amended: for every series, with \<open>window_size\<close> fixed at 12, the rolling volatility
  of a row \<open>i < window_size\<close> is undefined and every defined rolling volatility is
  non-negative; row \<open>i\<close> is defined exactly when \<open>i \<ge> window_size\<close> and the twelve returns
  of rows \<open>i - 11\<close> to \<open>i\<close> are all finite numbers. So for a series whose consecutive ratios
  are all positive, as for positive prices, it is defined exactly when \<open>i \<ge> window_size\<close>.
\<close>

theorem rolling_defined_iff:
  "window_size = 12 \<and>
   (\<forall>i<length closes. i < window_size \<longrightarrow> vol_1h_bps closes ! i = None) \<and>
   (\<forall>i<length closes. vol_1h_bps closes ! i \<noteq> None \<longleftrightarrow>
      window_size \<le> i \<and> (\<forall>j. i - 11 \<le> j \<and> j \<le> i \<longrightarrow> (\<exists>r. returns closes ! j = Num r))) \<and>
   (positive_ratios closes \<longrightarrow>
      (\<forall>i<length closes. vol_1h_bps closes ! i \<noteq> None \<longleftrightarrow> window_size \<le> i)) \<and>
   (\<forall>v. Some v \<in> set (vol_1h_bps closes) \<longrightarrow> 0 \<le> v)"
proof -
  have "vol_1h_bps closes ! i = None" if "i < length closes" and "i < 12" for i
    using vol_defined_rows [OF that(1)] that(2) by auto
  moreover have "vol_1h_bps closes ! i \<noteq> None \<longleftrightarrow>
      12 \<le> i \<and> (\<forall>j. i - 11 \<le> j \<and> j \<le> i \<longrightarrow> (\<exists>r. returns closes ! j = Num r))"
    if "i < length closes" for i
    by (rule vol_defined_rows [OF that])
  moreover have "vol_1h_bps closes ! i \<noteq> None \<longleftrightarrow> 12 \<le> i"
    if "positive_ratios closes" and "i < length closes" for i
    by (rule vol_defined_ratios [OF that])
  moreover have "0 \<le> v" if "Some v \<in> set (vol_1h_bps closes)" for v
    using that by (rule vol_1h_bps_nonneg)
  ultimately show ?thesis
    unfolding window_size_12 by blast
qed

theorem rolling_defined_iff_witness:
  "positive_ratios thirteen_closes \<and> window_size = 12 \<and>
   (11 :: nat) < length thirteen_closes \<and> (11 :: nat) < window_size \<and>
   vol_1h_bps thirteen_closes ! 11 = None \<and>
   (12 :: nat) < length thirteen_closes \<and> window_size \<le> 12 \<and>
   vol_1h_bps thirteen_closes ! 12 \<noteq> None \<and>
   Some (ln 2 * 10000) \<in> set (vol_1h_bps thirteen_closes) \<and> (0 :: real) \<le> ln 2 * 10000"
proof -
  have pos: "positive_ratios thirteen_closes" by simp
  note t = rolling_defined_iff [of thirteen_closes]
  have v: "Some (ln 2 * 10000) \<in> set (vol_1h_bps thirteen_closes)"
    unfolding vol_thirteen by simp
  have w: "window_size = 12" using t by blast
  from t have a: "i < length thirteen_closes \<Longrightarrow> i < window_size
      \<Longrightarrow> vol_1h_bps thirteen_closes ! i = None" for i
    by blast
  from t pos have b: "i < length thirteen_closes
      \<Longrightarrow> vol_1h_bps thirteen_closes ! i \<noteq> None \<longleftrightarrow> window_size \<le> i" for i
    by blast
  have "vol_1h_bps thirteen_closes ! 11 = None" by (rule a) (simp_all add: w)
  moreover have "vol_1h_bps thirteen_closes ! 12 \<noteq> None" using b [of 12] by (simp add: w)
  moreover from t v have "(0 :: real) \<le> ln 2 * 10000" by blast
  ultimately show ?thesis using v pos by (simp add: w)
qed

text \<open>
  C6 as stated fails: with a close of zero in row 5 the return of row 5 is infinite, and
  row 13, whose window holds it, is undefined although \<open>13 \<ge> window_size\<close>.
\<close>

theorem rolling_zero_close_counterexample:
  "(13 :: nat) < length zero_close_series \<and> window_size \<le> 13 \<and>
   returns zero_close_series ! 5 = Infinite \<and>
   vol_1h_bps zero_close_series ! 13 = None"
proof -
  have r5: "returns zero_close_series ! 5 = Infinite"
    by (simp add: returns_nth log_return_def)
  have "\<not> (\<forall>j. 13 - 11 \<le> j \<and> j \<le> 13 \<longrightarrow> (\<exists>r. returns zero_close_series ! j = Num r))"
  proof
    assume "\<forall>j. 13 - 11 \<le> j \<and> j \<le> 13 \<longrightarrow> (\<exists>r. returns zero_close_series ! j = Num r)"
    then have "\<exists>r. returns zero_close_series ! 5 = Num r" by simp
    with r5 show False by simp
  qed
  moreover have "vol_1h_bps zero_close_series ! 13 \<noteq> None \<longleftrightarrow>
      12 \<le> (13 :: nat)
      \<and> (\<forall>j. 13 - 11 \<le> j \<and> j \<le> 13 \<longrightarrow> (\<exists>r. returns zero_close_series ! j = Num r))"
    by (rule vol_defined_rows) simp
  ultimately have "vol_1h_bps zero_close_series ! 13 = None" by blast
  with r5 show ?thesis by (simp add: window_size_12)
qed

section \<open>The aggregate volatility of a response\<close>






section \<open>The lengths of the output lists\<close>

lemma get_volatility_fetched:
  assumes "get_volatility srt ex now_ms symb lookback_hours itv = Some (Inr resp)"
  shows "\<exists>fetched. fetch_loop ex symb itv now_ms
           \<lparr>calls = 0, current_start_ms = now_ms - lookback_hours * 3600000, all_data = []\<rparr>
         = Some (Inr fetched) \<and> resp = build_response srt symb fetched"
  using assms
  by (auto simp: get_volatility_def try_block_def Let_def
      split: option.splits sum.splits if_splits)

text \<open>
  C10: in a successful response \<open>timestamps\<close>, \<open>rolling_vols\<close> and \<open>prices\<close> have the same
  length, the total number of candles in the pages the exchange handed to the requests of
  the run; such pages exist for every successful response.
\<close>

theorem output_lists_same_length:
  assumes "sorts_by_timestamp srt"
    and "get_volatility srt ex now_ms symb lookback_hours itv = Some (Inr resp)"
  shows "(\<exists>ps. received_pages ex symb itv now_ms 0 (now_ms - lookback_hours * 3600000) ps) \<and>
     (received_pages ex symb itv now_ms 0 (now_ms - lookback_hours * 3600000) pages \<longrightarrow>
        length (timestamps resp) = sum_list (map length pages) \<and>
        length (rolling_vols resp) = sum_list (map length pages) \<and>
        length (prices resp) = sum_list (map length pages))"
proof -
  let ?st = "\<lparr>calls = 0, current_start_ms = now_ms - lookback_hours * 3600000, all_data = []\<rparr>"
  from get_volatility_fetched [OF assms(2)] obtain fetched
    where fetched: "fetch_loop ex symb itv now_ms ?st = Some (Inr fetched)"
      and resp: "resp = build_response srt symb fetched" by blast
  from fetch_loop_received_pages [OF fetched]
  have ex: "\<exists>ps. received_pages ex symb itv now_ms 0 (now_ms - lookback_hours * 3600000) ps"
    by simp
  have "length (timestamps resp) = sum_list (map length pages) \<and>
        length (rolling_vols resp) = sum_list (map length pages) \<and>
        length (prices resp) = sum_list (map length pages)"
    if "received_pages ex symb itv now_ms 0 (now_ms - lookback_hours * 3600000) pages"
  proof -
    from received_pages_fetch_loop [OF that, of ?st] fetched
    have "fetched = concat pages" by simp
    then have "length fetched = sum_list (map length pages)" by (simp add: length_concat)
    with sorts_length [OF assms(1), of fetched] show ?thesis
      by (simp add: resp build_response_def Let_def length_fillna length_vol_1h_bps)
  qed
  with ex show ?thesis by blast
qed

lemma pages_thirteen:
  "received_pages (paged_exchange thirteen_candles 7) ''btcusdt'' ''5m'' 3900000 0
     (3900000 - 1 * 3600000) [take 7 thirteen_candles, drop 7 thirteen_candles]"
proof -
  let ?ex = "paged_exchange thirteen_candles 7"
  have p2: "received_pages ?ex ''btcusdt'' ''5m'' 3900000 (Suc (Suc 0))
      (open_time (last (drop 7 thirteen_candles)) + 300000) []"
    by (rule received_pages.range_covered) (simp add: thirteen_candles_def)
  have p1: "received_pages ?ex ''btcusdt'' ''5m'' 3900000 (Suc 0)
      (open_time (last (take 7 thirteen_candles)) + 300000) [drop 7 thirteen_candles]"
  proof (rule received_pages.next_page [OF _ _ _ p2])
    show "open_time (last (take 7 thirteen_candles)) + 300000 < 3900000"
      by (simp add: thirteen_candles_def)
    show "?ex (Suc 0) \<lparr>q_symbol = upper ''btcusdt'', q_interval = ''5m'',
        startTime = open_time (last (take 7 thirteen_candles)) + 300000,
        endTime = 3900000, limit = 1000\<rparr> = Page (drop 7 thirteen_candles)"
      by (simp add: paged_exchange_def thirteen_candles_def)
    show "drop 7 thirteen_candles \<noteq> []"
      by (simp add: thirteen_candles_def)
  qed
  show ?thesis
  proof (rule received_pages.next_page [OF _ _ _ p1])
    show "(3900000 :: int) - 1 * 3600000 < 3900000" by simp
    show "?ex 0 \<lparr>q_symbol = upper ''btcusdt'', q_interval = ''5m'',
        startTime = 3900000 - 1 * 3600000, endTime = 3900000, limit = 1000\<rparr>
      = Page (take 7 thirteen_candles)"
      by (simp add: paged_exchange_def thirteen_candles_def)
    show "take 7 thirteen_candles \<noteq> []"
      by (simp add: thirteen_candles_def)
  qed
qed

lemma get_volatility_paged:
  "get_volatility (sort_key open_time) (paged_exchange thirteen_candles 7) 3900000
      ''btcusdt'' 1 ''5m''
   = Some (Inr (build_response (sort_key open_time) ''btcusdt'' thirteen_candles))"
proof -
  have "fetch_loop (paged_exchange thirteen_candles 7) ''btcusdt'' ''5m'' 3900000
      \<lparr>calls = 0, current_start_ms = 3900000 - 1 * 3600000, all_data = []\<rparr>
    = Some (Inr (take 7 thirteen_candles @ drop 7 thirteen_candles))"
    using received_pages_fetch_loop [OF pages_thirteen,
        of "\<lparr>calls = 0, current_start_ms = 3900000 - 1 * 3600000, all_data = []\<rparr>"]
    by simp
  moreover have "thirteen_candles \<noteq> []" by (simp add: thirteen_candles_def)
  ultimately show ?thesis
    unfolding get_volatility_def try_block_def Let_def by simp
qed

theorem output_lists_same_length_witness:
  "sorts_by_timestamp (sort_key open_time) \<and>
   get_volatility (sort_key open_time) (paged_exchange thirteen_candles 7) 3900000
      ''btcusdt'' 1 ''5m''
     = Some (Inr (build_response (sort_key open_time) ''btcusdt'' thirteen_candles)) \<and>
   received_pages (paged_exchange thirteen_candles 7) ''btcusdt'' ''5m'' 3900000 0
     (3900000 - 1 * 3600000) [take 7 thirteen_candles, drop 7 thirteen_candles] \<and>
   length (take 7 thirteen_candles) = 7 \<and> length (drop 7 thirteen_candles) = 6 \<and>
   sum_list (map length [take 7 thirteen_candles, drop 7 thirteen_candles]) = 13 \<and>
   length (timestamps (build_response (sort_key open_time) ''btcusdt'' thirteen_candles)) = 13 \<and>
   length (rolling_vols (build_response (sort_key open_time) ''btcusdt'' thirteen_candles)) = 13 \<and>
   length (prices (build_response (sort_key open_time) ''btcusdt'' thirteen_candles)) = 13"
proof -
  have len: "length thirteen_candles = 13" by (simp add: thirteen_candles_def)
  then have sum: "sum_list (map length [take 7 thirteen_candles, drop 7 thirteen_candles]) = 13"
    by simp
  from output_lists_same_length [OF sort_key_sorts get_volatility_paged,
      of "[take 7 thirteen_candles, drop 7 thirteen_candles]"]
    pages_thirteen sum len sort_key_sorts get_volatility_paged
  show ?thesis by simp
qed

end
